theory Spec2Isabelle
  imports Main "HOL-Library.Word"
begin

section \<open>Strings and Number values\<close>

text \<open>
  The script \<^verbatim>\<open>popup.js\<close> is one click listener. It reads three form fields as
  strings, turns two of them into Numbers with \<^verbatim>\<open>parseInt\<close>, walks the range with a
  \<^verbatim>\<open>for\<close> loop comparing \<^verbatim>\<open>i.toString()\<close> with the password, and writes a
  message and a colour. The listener is embedded below together with the three language
  operations it relies on (\<^verbatim>\<open>parseInt\<close>, \<^verbatim>\<open>Number.prototype.toString\<close>, and
  \<^verbatim>\<open>++\<close> on Numbers), which follow ECMA-262. The page is taken to hold the
  elements the listener looks up; their values are arbitrary strings.

  A string of the language is a sequence of 16-bit code units.
\<close>

type_synonym code_unit = "16 word"
type_synonym jsstring = "code_unit list"

definition lit :: "string \<Rightarrow> jsstring" where
  "lit s = map of_char s"

text \<open>
  A Number is an IEEE-754 double. \<^verbatim>\<open>parseInt\<close> only ever yields \<^verbatim>\<open>NaN\<close>, an
  infinity or an integer-valued double, and \<^verbatim>\<open>++\<close> keeps it so; \<open>Finite v\<close> stands for
  the double whose value is the integer \<open>v\<close>. Negative zero is identified with zero: the
  listener cannot tell them apart (\<^verbatim>\<open>(-0).toString()\<close> is \<^verbatim>\<open>"0"\<close>, and
  \<^verbatim>\<open><=\<close> and \<^verbatim>\<open>++\<close> treat both alike).
\<close>

datatype number = NaN | NegInfinity | Finite int | PosInfinity

fun isNaN :: "number \<Rightarrow> bool" where
  "isNaN NaN = True"
| "isNaN _ = False"

text \<open>The operator \<^verbatim>\<open><=\<close> on Numbers; every comparison with \<^verbatim>\<open>NaN\<close> is false.\<close>

fun lessEq :: "number \<Rightarrow> number \<Rightarrow> bool" where
  "lessEq NaN _ = False"
| "lessEq _ NaN = False"
| "lessEq NegInfinity _ = True"
| "lessEq _ PosInfinity = True"
| "lessEq (Finite a) (Finite b) = (a \<le> b)"
| "lessEq _ _ = False"

text \<open>
  The Number value of a mathematical integer: the nearest double, ties to the even
  significand, and an infinity from \<open>2 ^ 1024 - 2 ^ 970\<close> on. Every integer of magnitude up to
  \<open>2 ^ 53\<close> is a double; beyond that only 53 leading bits are kept.
\<close>

function bitlength :: "int \<Rightarrow> nat" where
  "bitlength n = (if n \<le> 0 then 0 else Suc (bitlength (n div 2)))"
  by pat_completeness auto
termination
  by (relation "measure nat") auto

declare bitlength.simps [simp del]

definition roundToDouble :: "int \<Rightarrow> number" where
  "roundToDouble x =
     (let m = \<bar>x\<bar> in
      if m \<le> 2 ^ 53 then Finite x
      else
        let e = bitlength m - 53;
            q = m div 2 ^ e;
            r = m mod 2 ^ e;
            q' = (if 2 ^ e < 2 * r \<or> (2 * r = 2 ^ e \<and> odd q) then q + 1 else q);
            v = q' * 2 ^ e
        in if 2 ^ 1024 \<le> v then (if x < 0 then NegInfinity else PosInfinity)
           else Finite (if x < 0 then - v else v))"

text \<open>\<^verbatim>\<open>i++\<close>: add one and round to a double.\<close>

fun increment :: "number \<Rightarrow> number" where
  "increment (Finite v) = roundToDouble (v + 1)"
| "increment x = x"

section \<open>\<^verbatim>\<open>parseInt\<close>\<close>

text \<open>
  \<^verbatim>\<open>parseInt(string)\<close>, called without a radix (ECMA-262, 19.2.5): leading white space
  is skipped, an optional sign is read, a prefix \<^verbatim>\<open>0x\<close> or \<^verbatim>\<open>0X\<close> switches to
  radix 16, and the longest prefix of digits of the radix is the numeral; whatever follows it
  is ignored. The result is \<^verbatim>\<open>NaN\<close> only when that prefix is empty. (For more than 20
  significant decimal digits the standard allows an engine to zero the later ones; the
  model evaluates the numeral exactly.)
\<close>

definition isWhiteSpace :: "code_unit \<Rightarrow> bool" where
  "isWhiteSpace c =
     (c \<in> set [0x09, 0x0A, 0x0B, 0x0C, 0x0D, 0x20, 0xA0, 0x1680, 0x2028, 0x2029, 0x202F,
                0x205F, 0x3000, 0xFEFF]
      \<or> (0x2000 \<le> c \<and> c \<le> 0x200A))"

definition digitValue :: "code_unit \<Rightarrow> nat option" where
  "digitValue c =
     (if 0x30 \<le> c \<and> c \<le> 0x39 then Some (unat c - 0x30)
      else if 0x61 \<le> c \<and> c \<le> 0x7A then Some (unat c - 0x61 + 10)
      else if 0x41 \<le> c \<and> c \<le> 0x5A then Some (unat c - 0x41 + 10)
      else None)"

text \<open>The values of the longest prefix of radix-\<open>R\<close> digits.\<close>

fun radixDigits :: "nat \<Rightarrow> jsstring \<Rightarrow> nat list" where
  "radixDigits R [] = []"
| "radixDigits R (c # cs) =
     (case digitValue c of
        None \<Rightarrow> []
      | Some d \<Rightarrow> if d < R then d # radixDigits R cs else [])"

definition mathInt :: "nat \<Rightarrow> nat list \<Rightarrow> int" where
  "mathInt R Z = foldl (\<lambda>a d. a * int R + int d) 0 Z"

text \<open>The optional sign: \<^verbatim>\<open>-\<close> negates, \<^verbatim>\<open>+\<close> is dropped.\<close>

fun stripSign :: "jsstring \<Rightarrow> int \<times> jsstring" where
  "stripSign [] = (1, [])"
| "stripSign (c # cs) =
     (if c = 0x2D then (- 1, cs) else if c = 0x2B then (1, cs) else (1, c # cs))"

text \<open>The radix: 16 after \<^verbatim>\<open>0x\<close> or \<^verbatim>\<open>0X\<close>, which is removed, and 10 otherwise.\<close>

fun stripPrefix :: "jsstring \<Rightarrow> nat \<times> jsstring" where
  "stripPrefix (a # b # cs) =
     (if a = 0x30 \<and> (b = 0x78 \<or> b = 0x58) then (16, cs) else (10, a # b # cs))"
| "stripPrefix S = (10, S)"

definition parseInt :: "jsstring \<Rightarrow> number" where
  "parseInt inputString =
     (let S = dropWhile isWhiteSpace inputString;
          (sign, S) = stripSign S;
          (R, S) = stripPrefix S;
          Z = radixDigits R S
      in if Z = [] then NaN else roundToDouble (sign * mathInt R Z))"

section \<open>\<^verbatim>\<open>Number.prototype.toString\<close>\<close>

text \<open>
  \<^verbatim>\<open>Number::toString\<close> with radix 10 (ECMA-262, 6.1.6.1.20) prints the shortest digit
  string \<open>s\<close> such that \<open>s \<times> 10 ^ z\<close> still rounds to the Number, among several the one
  nearest the Number (an even \<open>s\<close> on a tie). Up to 21 digits it is written out with its
  zeros, beyond that in exponent notation.
\<close>

definition digitChar :: "nat \<Rightarrow> code_unit" where
  "digitChar d = of_nat (0x30 + d)"

function decimal :: "int \<Rightarrow> jsstring" where
  "decimal n =
     (if n < 10 then [digitChar (nat n)]
      else decimal (n div 10) @ [digitChar (nat (n mod 10))])"
  by pat_completeness auto
termination
  by (relation "measure nat") auto

declare decimal.simps [simp del]

text \<open>
  \<open>shortest v z\<close> tries \<open>z\<close>, \<open>z - 1\<close>, ... trailing zeros and returns the first
  \<open>(s, z')\<close> for which \<open>s \<times> 10 ^ z'\<close> rounds to \<open>v\<close>; with no zeros, \<open>v\<close> itself does.
\<close>

fun shortest :: "int \<Rightarrow> nat \<Rightarrow> int \<times> nat" where
  "shortest v 0 = (v, 0)"
| "shortest v (Suc z) =
     (let p = 10 ^ Suc z;
          lo = v div p;
          hi = lo + 1;
          okLo = (roundToDouble (lo * p) = Finite v);
          okHi = (roundToDouble (hi * p) = Finite v)
      in if okLo \<and> okHi
         then (if v - lo * p < hi * p - v \<or> (v - lo * p = hi * p - v \<and> even lo)
               then (lo, Suc z) else (hi, Suc z))
         else if okLo then (lo, Suc z)
         else if okHi then (hi, Suc z)
         else shortest v z)"

definition stripZeros :: "jsstring \<Rightarrow> jsstring" where
  "stripZeros ds = rev (dropWhile (\<lambda>c. c = digitChar 0) (rev ds))"

definition positiveToString :: "int \<Rightarrow> jsstring" where
  "positiveToString v =
     (let (s, z) = shortest v (length (decimal v) - 1);
          ds = decimal s;
          n = length ds + z
      in if n \<le> 21 then ds @ replicate z (digitChar 0)
         else
           let sig = stripZeros ds
           in (case sig of
                 [] \<Rightarrow> []
               | d # rest \<Rightarrow>
                   (if rest = [] then [d] else d # lit ''.'' @ rest)
                   @ lit ''e+'' @ decimal (int n - 1)))"

definition toString :: "number \<Rightarrow> jsstring" where
  "toString x =
     (case x of
        NaN \<Rightarrow> lit ''NaN''
      | NegInfinity \<Rightarrow> lit ''-Infinity''
      | PosInfinity \<Rightarrow> lit ''Infinity''
      | Finite v \<Rightarrow>
          if v = 0 then lit ''0''
          else if v < 0 then lit ''-'' @ positiveToString (- v)
          else positiveToString v)"

section \<open>The click listener\<close>

text \<open>
  What the listener leaves in the \<^verbatim>\<open>result\<close> element: its \<^verbatim>\<open>textContent\<close> and its
  \<^verbatim>\<open>style.color\<close>.
\<close>

record result =
  textContent :: jsstring
  color :: jsstring

text \<open>
  The \<^verbatim>\<open>for\<close> loop with its \<^verbatim>\<open>break\<close>. Nothing bounds the number of rounds, so the
  loop is a partial function: \<open>None\<close> is a loop that never ends. Beside the flag
  \<^verbatim>\<open>found\<close> it returns how often the loop body has run, counted from \<open>n\<close>.
\<close>

partial_function (option) scan :: "jsstring \<Rightarrow> number \<Rightarrow> number \<Rightarrow> nat \<Rightarrow> (bool \<times> nat) option" where
  "scan password endv i n =
     (if lessEq i endv
      then if toString i = password then Some (True, Suc n)
           else scan password endv (increment i) (Suc n)
      else Some (False, n))"

declare scan.simps [code]

text \<open>
  The listener, as a function of the values of the three fields. It yields what is written
  to \<^verbatim>\<open>result\<close> and the number of rounds of the loop.
\<close>

definition run :: "jsstring \<Rightarrow> jsstring \<Rightarrow> jsstring \<Rightarrow> (result \<times> nat) option" where
  "run password startField endField =
     (let start = parseInt startField;
          endv = parseInt endField
      in if isNaN start \<or> isNaN endv
         then Some (\<lparr>textContent = lit ''Invalid range'', color = lit ''red''\<rparr>, 0)
         else
           (case scan password endv start 0 of
              None \<Rightarrow> None
            | Some (found, n) \<Rightarrow>
                if found
                then Some (\<lparr>textContent = lit ''Password is within range ?'',
                            color = lit ''green''\<rparr>, n)
                else Some (\<lparr>textContent = lit ''Password NOT in range ?'',
                            color = lit ''red''\<rparr>, n)))"

definition handler :: "jsstring \<Rightarrow> jsstring \<Rightarrow> jsstring \<Rightarrow> result option" where
  "handler password startField endField = map_option fst (run password startField endField)"

text \<open>The three things the listener can write.\<close>

abbreviation invalidResult :: result where
  "invalidResult \<equiv> \<lparr>textContent = lit ''Invalid range'', color = lit ''red''\<rparr>"

abbreviation foundResult :: result where
  "foundResult \<equiv> \<lparr>textContent = lit ''Password is within range ?'', color = lit ''green''\<rparr>"

abbreviation notFoundResult :: result where
  "notFoundResult \<equiv> \<lparr>textContent = lit ''Password NOT in range ?'', color = lit ''red''\<rparr>"

section \<open>Notions used to state the properties\<close>

text \<open>
  A field has a numeral when, after leading white space and an optional sign, either it
  begins with \<^verbatim>\<open>0x\<close> or \<^verbatim>\<open>0X\<close> and a hexadecimal digit comes next, or it does
  not begin with \<^verbatim>\<open>0x\<close> or \<^verbatim>\<open>0X\<close> and begins with a decimal digit. So
  \<^verbatim>\<open>"0x"\<close> and \<^verbatim>\<open>"0xg"\<close> have no numeral, and \<^verbatim>\<open>"0"\<close> and \<^verbatim>\<open>"0y"\<close> have
  one.
\<close>

definition isDecimalDigit :: "code_unit \<Rightarrow> bool" where
  "isDecimalDigit c = (0x30 \<le> c \<and> c \<le> 0x39)"

definition isHexDigit :: "code_unit \<Rightarrow> bool" where
  "isHexDigit c = (isDecimalDigit c \<or> (0x61 \<le> c \<and> c \<le> 0x66) \<or> (0x41 \<le> c \<and> c \<le> 0x46))"

definition hasNumeral :: "jsstring \<Rightarrow> bool" where
  "hasNumeral s =
     (let t = dropWhile isWhiteSpace s;
          u = (case t of [] \<Rightarrow> t | c # cs \<Rightarrow> if c = 0x2D \<or> c = 0x2B then cs else t)
      in case u of
           [] \<Rightarrow> False
         | [a] \<Rightarrow> isDecimalDigit a
         | a # b # cs \<Rightarrow>
             if a = 0x30 \<and> (b = 0x78 \<or> b = 0x58)
             then (case cs of [] \<Rightarrow> False | h # _ \<Rightarrow> isHexDigit h)
             else isDecimalDigit a)"

text \<open>
  A well-formed base-10 integer string, as the specification speaks of it: an optional sign
  \<^verbatim>\<open>+\<close> or \<^verbatim>\<open>-\<close> and then one or more decimal digits, and nothing else. Its
  base-10 value is the value of the digits, negated after \<^verbatim>\<open>-\<close>.
\<close>

definition digitsValue :: "jsstring \<Rightarrow> int" where
  "digitsValue t = foldl (\<lambda>a c. a * 10 + (int (unat c) - 0x30)) 0 t"

definition wellFormedInteger :: "jsstring \<Rightarrow> bool" where
  "wellFormedInteger s =
     (case s of
        [] \<Rightarrow> False
      | c # cs \<Rightarrow>
          if c = 0x2D \<or> c = 0x2B then cs \<noteq> [] \<and> list_all isDecimalDigit cs
          else list_all isDecimalDigit s)"

definition integerValue :: "jsstring \<Rightarrow> int" where
  "integerValue s =
     (case s of
        [] \<Rightarrow> 0
      | c # cs \<Rightarrow>
          if c = 0x2D then - digitsValue cs
          else if c = 0x2B then digitsValue cs
          else digitsValue s)"

text \<open>
  The decimal string of an integer, as the specification speaks of it: the digits, after a
  minus sign for a negative integer.
\<close>

definition decimalString :: "int \<Rightarrow> jsstring" where
  "decimalString i = (if i < 0 then lit ''-'' @ decimal (- i) else decimal i)"

text \<open>
  The membership check of the specification: some integer \<open>i\<close> with
  \<open>start \<le> i \<le> end\<close> has the password as its decimal string.
\<close>

definition inRange_spec :: "jsstring \<Rightarrow> int \<Rightarrow> int \<Rightarrow> bool" where
  "inRange_spec password a b = (\<exists>i \<in> {a..b}. decimalString i = password)"

section \<open>The loop on a range of exactly represented integers\<close>

lemma roundToDouble_exact: "\<bar>x\<bar> \<le> 2 ^ 53 \<Longrightarrow> roundToDouble x = Finite x"
  by (simp add: roundToDouble_def)

text \<open>
  From \<open>- 2 ^ 53\<close> up to \<open>2 ^ 53 - 1\<close> every \<^verbatim>\<open>i++\<close> is exact, so the loop walks the
  range, ends, and has found the password exactly if some integer of the range prints as it.
\<close>

lemma scan_finite:
  assumes "b < 2 ^ 53"
  shows "- (2 ^ 53) \<le> a \<Longrightarrow>
    \<exists>k. scan pw (Finite b) (Finite a) n
          = Some ((\<exists>i. a \<le> i \<and> i \<le> b \<and> toString (Finite i) = pw), n + k)
        \<and> int k \<le> max 0 (b - a + 1)"
proof (induction "nat (b + 1 - a)" arbitrary: a n)
  case 0
  then have "b < a" by simp
  then show ?case
    by (subst scan.simps) (auto intro: exI [of _ 0])
next
  case (Suc m)
  then have ab: "a \<le> b" by linarith
  show ?case
  proof (cases "toString (Finite a) = pw")
    case True
    with ab have "\<exists>i. a \<le> i \<and> i \<le> b \<and> toString (Finite i) = pw" by blast
    with ab True have "scan pw (Finite b) (Finite a) n
        = Some ((\<exists>i. a \<le> i \<and> i \<le> b \<and> toString (Finite i) = pw), n + 1)"
      by (subst scan.simps) simp
    moreover from ab have "int 1 \<le> max 0 (b - a + 1)" by simp
    ultimately show ?thesis by blast
  next
    case False
    from ab assms Suc.prems have inc: "increment (Finite a) = Finite (a + 1)"
      by (simp add: roundToDouble_exact)
    from Suc.hyps(2) have m: "m = nat (b + 1 - (a + 1))" by linarith
    from Suc.prems have "- (2 ^ 53) \<le> a + 1" by linarith
    from Suc.hyps(1) [OF m this, of "Suc n"] obtain k where
      k: "scan pw (Finite b) (Finite (a + 1)) (Suc n)
            = Some ((\<exists>i. a + 1 \<le> i \<and> i \<le> b \<and> toString (Finite i) = pw), Suc n + k)"
         "int k \<le> max 0 (b - (a + 1) + 1)"
      by blast
    have ex: "(\<exists>i. a \<le> i \<and> i \<le> b \<and> toString (Finite i) = pw)
        = (\<exists>i. a + 1 \<le> i \<and> i \<le> b \<and> toString (Finite i) = pw)"
    proof
      assume "\<exists>i. a \<le> i \<and> i \<le> b \<and> toString (Finite i) = pw"
      then obtain i where i: "a \<le> i" "i \<le> b" "toString (Finite i) = pw" by blast
      with False have "i \<noteq> a" by auto
      with i show "\<exists>i. a + 1 \<le> i \<and> i \<le> b \<and> toString (Finite i) = pw"
        by (intro exI [of _ i]) simp
    next
      assume "\<exists>i. a + 1 \<le> i \<and> i \<le> b \<and> toString (Finite i) = pw"
      then obtain i where i: "a + 1 \<le> i" "i \<le> b" "toString (Finite i) = pw" by blast
      then show "\<exists>i. a \<le> i \<and> i \<le> b \<and> toString (Finite i) = pw"
        by (intro exI [of _ i]) simp
    qed
    have "scan pw (Finite b) (Finite a) n
        = Some ((\<exists>i. a \<le> i \<and> i \<le> b \<and> toString (Finite i) = pw), n + Suc k)"
      using ab False inc k(1) ex by (subst scan.simps) simp
    moreover have "int (Suc k) \<le> max 0 (b - a + 1)"
      using k(2) ab by simp
    ultimately show ?thesis by blast
  qed
qed

text \<open>
  The loop stops at the first match, so for a match it only matters that the loop gets there:
  from \<open>- 2 ^ 53\<close> on every \<^verbatim>\<open>i++\<close> up to \<open>2 ^ 53\<close> is exact, wherever the range
  ends.
\<close>

lemma scan_reaches:
  assumes "i \<le> 2 ^ 53" "i \<le> b" "toString (Finite i) = pw"
  shows "- (2 ^ 53) \<le> a \<Longrightarrow> a \<le> i \<Longrightarrow>
    \<exists>k. scan pw (Finite b) (Finite a) n = Some (True, k)"
proof (induction "nat (i - a)" arbitrary: a n)
  case 0
  then have "a = i" by simp
  with assms(2,3) have "scan pw (Finite b) (Finite a) n = Some (True, Suc n)"
    by (subst scan.simps) simp
  then show ?case by blast
next
  case (Suc m)
  then have ai: "a < i" by linarith
  with assms(2) have ab: "a \<le> b" by simp
  show ?case
  proof (cases "toString (Finite a) = pw")
    case True
    with ab have "scan pw (Finite b) (Finite a) n = Some (True, Suc n)"
      by (subst scan.simps) simp
    then show ?thesis by blast
  next
    case False
    from ai assms(1) Suc.prems(1) have inc: "increment (Finite a) = Finite (a + 1)"
      by (simp add: roundToDouble_exact)
    from Suc.hyps(2) have m: "m = nat (i - (a + 1))" by linarith
    from Suc.prems(1) have lo: "- (2 ^ 53) \<le> a + 1" by linarith
    from ai have "a + 1 \<le> i" by simp
    from Suc.hyps(1) [OF m lo this, of "Suc n"] obtain k where
      "scan pw (Finite b) (Finite (a + 1)) (Suc n) = Some (True, k)" by blast
    with ab False inc have "scan pw (Finite b) (Finite a) n = Some (True, k)"
      by (subst scan.simps) simp
    then show ?thesis by blast
  qed
qed

text \<open>
  A Number that \<^verbatim>\<open>i++\<close> leaves unchanged, that is within the range and does not print
  as the password, keeps the loop running for ever.
\<close>

lemma scan_stuck:
  assumes "lessEq i e" "increment i = i" "toString i \<noteq> pw"
  shows "scan pw e i n = None"
proof (cases "scan pw e i n")
  case (Some y)
  have "\<not> (lessEq i e \<and> increment i = i \<and> toString i \<noteq> pw)"
  proof (rule scan.raw_induct
      [where P = "\<lambda>p d j m y. \<not> (lessEq j d \<and> increment j = j \<and> toString j \<noteq> p)",
        OF _ Some])
    fix scan' p d j m z
    assume IH: "\<And>p d j m z. scan' p d j m = Some z \<Longrightarrow>
        \<not> (lessEq j d \<and> increment j = j \<and> toString j \<noteq> p)"
      and body: "(if lessEq j d
          then if toString j = p then Some (True, Suc m) else scan' p d (increment j) (Suc m)
          else Some (False, m)) = Some z"
    show "\<not> (lessEq j d \<and> increment j = j \<and> toString j \<noteq> p)"
    proof
      assume st: "lessEq j d \<and> increment j = j \<and> toString j \<noteq> p"
      with body have "scan' p d j (Suc m) = Some z" by simp
      from IH [OF this] st show False by simp
    qed
  qed
  with assms show ?thesis by simp
qed simp

lemma parseInt_2_53: "parseInt (lit ''9007199254740992'') = Finite 9007199254740992"
  by code_simp

lemma increment_2_53: "increment (Finite 9007199254740992) = Finite 9007199254740992"
  by code_simp

lemma toString_2_53: "toString (Finite 9007199254740992) = lit ''9007199254740992''"
  by code_simp

lemma run_found:
  assumes "parseInt s = Finite a" "parseInt e = Finite b" "- (2 ^ 53) \<le> a" "b < 2 ^ 53"
  shows "\<exists>k. run pw s e =
      Some (if \<exists>i. a \<le> i \<and> i \<le> b \<and> toString (Finite i) = pw
            then foundResult else notFoundResult, k)
    \<and> int k \<le> max 0 (b - a + 1)"
proof -
  from scan_finite [OF assms(4) assms(3), of pw 0] obtain k where
    k: "scan pw (Finite b) (Finite a) 0
          = Some ((\<exists>i. a \<le> i \<and> i \<le> b \<and> toString (Finite i) = pw), k)"
       "int k \<le> max 0 (b - a + 1)"
    by auto
  have "run pw s e =
      Some (if \<exists>i. a \<le> i \<and> i \<le> b \<and> toString (Finite i) = pw
            then foundResult else notFoundResult, k)"
  proof (cases "\<exists>i. a \<le> i \<and> i \<le> b \<and> toString (Finite i) = pw")
    case True
    with k(1) have "scan pw (Finite b) (Finite a) 0 = Some (True, k)" by simp
    with assms(1,2) True show ?thesis by (auto simp: run_def)
  next
    case False
    with k(1) have "scan pw (Finite b) (Finite a) 0 = Some (False, k)" by simp
    with assms(1,2) False show ?thesis by (auto simp: run_def)
  qed
  with k(2) show ?thesis by blast
qed

section \<open>What \<^verbatim>\<open>toString\<close> prints\<close>

lemma bitlength_lower: "0 < c \<Longrightarrow> 2 ^ (bitlength c - 1) \<le> c"
proof (induction c rule: bitlength.induct)
  case (1 n)
  show ?case
  proof (cases "n div 2 = 0")
    case True
    with 1(2) have "n = 1" by linarith
    then show ?thesis by (simp add: bitlength.simps)
  next
    case False
    with 1(2) have pos: "0 < n div 2" by linarith
    from 1(2) have "\<not> n \<le> 0" by simp
    from 1(1) [OF this pos] have IH: "2 ^ (bitlength (n div 2) - 1) \<le> n div 2" .
    from pos have "bitlength (n div 2) = Suc (bitlength (n div 2 div 2))"
      by (subst bitlength.simps) simp
    then have "bitlength (n div 2) = Suc (bitlength (n div 2) - 1)" by simp
    then have "(2 :: int) ^ bitlength (n div 2) = 2 * 2 ^ (bitlength (n div 2) - 1)"
      by (metis power_Suc)
    with IH have "(2 :: int) ^ bitlength (n div 2) \<le> 2 * (n div 2)" by simp
    also have "\<dots> \<le> n" by simp
    finally show ?thesis using 1(2) by (subst bitlength.simps) simp
  qed
qed

lemma roundToDouble_large:
  assumes "2 ^ 53 < c" "roundToDouble c = Finite v"
  shows "2 ^ 53 \<le> v"
proof -
  define e where "e = bitlength c - 53"
  define q where "q = c div 2 ^ e"
  define q' where "q' = (if 2 ^ e < 2 * (c mod 2 ^ e) \<or> (2 * (c mod 2 ^ e) = 2 ^ e \<and> odd q)
    then q + 1 else q)"
  from assms(1) have cpos: "0 < c" "\<bar>c\<bar> = c" "\<not> c \<le> 2 ^ 53" "\<not> c < 0" by simp_all
  have "roundToDouble c = (if 2 ^ 1024 \<le> q' * 2 ^ e then PosInfinity else Finite (q' * 2 ^ e))"
    using cpos unfolding roundToDouble_def Let_def e_def q_def q'_def by simp
  with assms(2) have v: "v = q' * 2 ^ e" by (simp split: if_splits)
  have qq: "q \<le> q'" by (simp add: q'_def)
  have "2 ^ 53 \<le> q * 2 ^ e"
  proof (cases "e = 0")
    case True
    with assms(1) show ?thesis by (simp add: q_def)
  next
    case False
    then have "bitlength c - 1 = e + 52" by (simp add: e_def)
    with bitlength_lower [OF cpos(1)] have "(2 :: int) ^ (e + 52) \<le> c" by simp
    then have "(2 :: int) ^ 52 * 2 ^ e \<le> c" by (simp add: power_add mult.commute)
    then have "(2 :: int) ^ 52 * 2 ^ e div 2 ^ e \<le> c div 2 ^ e"
      by (rule zdiv_mono1) simp
    then have q52: "(2 :: int) ^ 52 \<le> q" by (simp add: q_def)
    from False have "(2 :: int) ^ 1 \<le> 2 ^ e" by (intro power_increasing) simp_all
    then have "(2 :: int) \<le> 2 ^ e" by simp
    with q52 have "(2 :: int) ^ 52 * 2 \<le> q * 2 ^ e" by (intro mult_mono) simp_all
    then show ?thesis by simp
  qed
  also have "\<dots> \<le> q' * 2 ^ e" using qq by simp
  finally show ?thesis by (simp add: v)
qed

lemma roundToDouble_eq_iff:
  assumes "v < 2 ^ 53" "0 \<le> c"
  shows "roundToDouble c = Finite v \<longleftrightarrow> c = v"
proof (cases "c \<le> 2 ^ 53")
  case True
  with assms(2) show ?thesis by (simp add: roundToDouble_exact)
next
  case False
  then have "2 ^ 53 < c" by simp
  from roundToDouble_large [OF this] assms(1) False show ?thesis by fastforce
qed

lemma shortest_exact:
  assumes "0 < v" "v < 2 ^ 53"
  shows "shortest v z = (s, z') \<Longrightarrow> s * 10 ^ z' = v"
proof (induction z)
  case 0
  then show ?case by simp
next
  case (Suc z)
  define p :: int where "p = 10 ^ Suc z"
  define lo where "lo = v div p"
  have ppos: "0 < p" by (simp add: p_def)
  from assms(1) ppos have lo0: "0 \<le> lo" by (simp add: lo_def pos_imp_zdiv_nonneg_iff)
  have "v < (lo + 1) * p"
    using ppos unfolding lo_def
    by (metis add.commute distrib_right mult.commute mult_1 pos_mod_bound div_mult_mod_eq add_strict_left_mono)
  then have hi: "roundToDouble ((lo + 1) * p) \<noteq> Finite v"
    using roundToDouble_eq_iff [OF assms(2), of "(lo + 1) * p"] lo0 ppos by simp
  from lo0 ppos have lo: "roundToDouble (lo * p) = Finite v \<longleftrightarrow> lo * p = v"
    using roundToDouble_eq_iff [OF assms(2), of "lo * p"] by simp
  from Suc.prems have "(if lo * p = v then (lo, Suc z) else shortest v z) = (s, z')"
    using hi lo unfolding shortest.simps Let_def p_def [symmetric] lo_def [symmetric]
    by (simp split: if_splits)
  then show ?case using Suc.IH by (auto simp: p_def split: if_splits)
qed

lemma decimal_times_10: "0 < s \<Longrightarrow> decimal (s * 10) = decimal s @ [digitChar 0]"
  by (subst decimal.simps) simp

lemma decimal_times_power:
  "0 < s \<Longrightarrow> decimal (s * 10 ^ z) = decimal s @ replicate z (digitChar 0)"
proof (induction z)
  case 0
  then show ?case by simp
next
  case (Suc z)
  then have "0 < s * 10 ^ z" by simp
  from decimal_times_10 [OF this] Suc show ?case
    by (simp add: mult.assoc mult.commute [of 10] replicate_append_same)
qed

lemma length_decimal_le: "n < 10 ^ Suc k \<Longrightarrow> length (decimal n) \<le> Suc k"
proof (induction k arbitrary: n)
  case 0
  then show ?case by (subst decimal.simps) simp
next
  case (Suc k)
  show ?case
  proof (cases "n < 10")
    case True
    then show ?thesis by (subst decimal.simps) simp
  next
    case False
    from Suc.prems have "n div 10 < 10 ^ Suc k" by simp
    from Suc.IH [OF this] False show ?thesis by (subst decimal.simps) simp
  qed
qed

lemma positiveToString_exact:
  assumes "0 < v" "v < 2 ^ 53"
  shows "positiveToString v = decimal v"
proof -
  obtain s z where sz: "shortest v (length (decimal v) - 1) = (s, z)" by fastforce
  from shortest_exact [OF assms sz] have v: "s * 10 ^ z = v" .
  with assms(1) have "0 < s * 10 ^ z" by simp
  then have spos: "0 < s" by (simp add: zero_less_mult_iff)
  from decimal_times_power [OF spos, of z] v
  have d: "decimal v = decimal s @ replicate z (digitChar 0)" by simp
  have "v < 10 ^ Suc 15" using assms(2) by simp
  from length_decimal_le [OF this] d have "length (decimal s) + z \<le> 21" by simp
  with sz d show ?thesis by (simp add: positiveToString_def)
qed

lemma toString_exact:
  assumes "\<bar>v\<bar> < 2 ^ 53"
  shows "toString (Finite v) = (if v < 0 then lit ''-'' @ decimal (- v) else decimal v)"
proof -
  have "decimal 0 = lit ''0''" by (subst decimal.simps) (simp add: lit_def digitChar_def)
  with assms show ?thesis by (simp add: toString_def positiveToString_exact)
qed

lemma digitChar_eq_iff: "d < 10 \<Longrightarrow> d' < 10 \<Longrightarrow> digitChar d = digitChar d' \<longleftrightarrow> d = d'"
  unfolding digitChar_def
  by (auto simp: word_of_nat_eq_iff take_bit_nat_eq_self)

lemma decimal_hd:
  "0 < n \<Longrightarrow> \<exists>d rest. decimal n = digitChar d # rest \<and> 0 < d \<and> d < 10"
proof (induction n rule: decimal.induct)
  case (1 n)
  show ?case
  proof (cases "n < 10")
    case True
    with 1(2) have "decimal n = digitChar (nat n) # [] \<and> 0 < nat n \<and> nat n < 10"
      by (subst decimal.simps) simp
    then show ?thesis by blast
  next
    case False
    then have "0 < n div 10" by simp
    from 1(1) [OF False this] obtain d rest where
      "decimal (n div 10) = digitChar d # rest" "0 < d" "d < 10" by blast
    with False have "decimal n = digitChar d # (rest @ [digitChar (nat (n mod 10))]) \<and> 0 < d \<and> d < 10"
      by (subst decimal.simps) simp
    then show ?thesis by blast
  qed
qed

lemma decimal_length_power: "0 < n \<Longrightarrow> 10 ^ (length (decimal n) - 1) \<le> n"
proof (induction n rule: decimal.induct)
  case (1 n)
  show ?case
  proof (cases "n < 10")
    case True
    with 1(2) show ?thesis by (subst decimal.simps) simp
  next
    case False
    then have pos: "0 < n div 10" by simp
    from 1(1) [OF False pos] have IH: "10 ^ (length (decimal (n div 10)) - 1) \<le> n div 10" .
    from decimal_hd [OF pos] have "0 < length (decimal (n div 10))" by auto
    then have "length (decimal (n div 10)) = Suc (length (decimal (n div 10)) - 1)" by simp
    then have "(10 :: int) ^ length (decimal (n div 10)) = 10 * 10 ^ (length (decimal (n div 10)) - 1)"
      by (metis power_Suc)
    with IH have "(10 :: int) ^ length (decimal (n div 10)) \<le> 10 * (n div 10)" by simp
    also have "\<dots> \<le> n" by simp
    finally show ?thesis using False by (subst decimal.simps) simp
  qed
qed

lemma shortest_positive: "10 ^ z \<le> v \<Longrightarrow> 0 < fst (shortest v z)"
proof (induction z)
  case 0
  then show ?case by simp
next
  case (Suc z)
  define p :: int where "p = 10 ^ Suc z"
  have ppos: "0 < p" by (simp add: p_def)
  from Suc.prems have "p \<le> v" by (simp add: p_def)
  with ppos have "p div p \<le> v div p" by (intro zdiv_mono1)
  with ppos have lo: "0 < v div p" by simp
  have "(10 :: int) ^ z \<le> 10 ^ Suc z" by (intro power_increasing) simp_all
  with Suc.prems have "(10 :: int) ^ z \<le> v" by linarith
  from Suc.IH [OF this] lo show ?case
    unfolding shortest.simps Let_def p_def [symmetric] by simp
qed

lemma stripZeros_hd:
  "d \<noteq> digitChar 0 \<Longrightarrow> \<exists>rest'. stripZeros (d # rest) = d # rest'"
proof -
  assume d: "d \<noteq> digitChar 0"
  have "dropWhile (\<lambda>c. c = digitChar 0) (rev rest @ [d])
      = dropWhile (\<lambda>c. c = digitChar 0) (rev rest) @ [d]"
    using d by (induction "rev rest" arbitrary: rest) (auto simp: dropWhile_append)
  then show ?thesis by (simp add: stripZeros_def)
qed

lemma positiveToString_hd:
  assumes "0 < v"
  shows "\<exists>d rest. positiveToString v = digitChar d # rest \<and> 0 < d \<and> d < 10"
proof -
  obtain s z where sz: "shortest v (length (decimal v) - 1) = (s, z)" by fastforce
  from shortest_positive [OF decimal_length_power [OF assms]] sz have "0 < s" by simp
  from decimal_hd [OF this] obtain d rest where
    d: "decimal s = digitChar d # rest" "0 < d" "d < 10" by blast
  from d(2,3) have "digitChar d \<noteq> digitChar 0" by (simp add: digitChar_eq_iff)
  from stripZeros_hd [OF this, of rest] obtain rest' where
    "stripZeros (decimal s) = digitChar d # rest'" using d(1) by auto
  with sz d show ?thesis
    by (auto simp: positiveToString_def Let_def)
qed

lemma toString_no_leading_zero: "toString x \<noteq> 0x30 # c # cs"
proof (cases x)
  case (Finite v)
  have z: "digitChar 0 = 0x30" by (simp add: digitChar_def)
  show ?thesis
  proof (cases "v = 0")
    case True
    with Finite show ?thesis by (simp add: toString_def lit_def)
  next
    case False
    show ?thesis
    proof (cases "v < 0")
      case True
      with Finite False show ?thesis by (simp add: toString_def lit_def)
    next
      case nonneg: False
      with False have "0 < v" by simp
      from positiveToString_hd [OF this] obtain d rest where
        d: "positiveToString v = digitChar d # rest" "0 < d" "d < 10" by blast
      from d(2,3) have "digitChar d \<noteq> digitChar 0" by (simp add: digitChar_eq_iff)
      with d(1) z Finite False nonneg show ?thesis by (simp add: toString_def)
    qed
  qed
qed (simp_all add: toString_def lit_def)

section \<open>What \<^verbatim>\<open>parseInt\<close> accepts\<close>

lemma radixDigits_10_Nil: "radixDigits 10 (c # cs) = [] \<longleftrightarrow> \<not> isDecimalDigit c"
  by (auto simp: digitValue_def isDecimalDigit_def word_le_nat_alt word_less_nat_alt)

lemma radixDigits_16_Nil: "radixDigits 16 (c # cs) = [] \<longleftrightarrow> \<not> isHexDigit c"
  by (auto simp: digitValue_def isHexDigit_def isDecimalDigit_def word_le_nat_alt word_less_nat_alt)

lemma roundToDouble_not_NaN: "\<not> isNaN (roundToDouble x)"
  by (simp add: roundToDouble_def Let_def)

lemma stripPrefix_numeral:
  "radixDigits (fst (stripPrefix u)) (snd (stripPrefix u)) \<noteq> [] \<longleftrightarrow>
   (case u of
      [] \<Rightarrow> False
    | [a] \<Rightarrow> isDecimalDigit a
    | a # b # cs \<Rightarrow>
        if a = 0x30 \<and> (b = 0x78 \<or> b = 0x58)
        then (case cs of [] \<Rightarrow> False | h # _ \<Rightarrow> isHexDigit h)
        else isDecimalDigit a)"
proof (cases u)
  case Nil
  then show ?thesis by simp
next
  case u: (Cons a v)
  show ?thesis
  proof (cases v)
    case Nil
    with u show ?thesis by (simp add: radixDigits_10_Nil del: radixDigits.simps)
  next
    case v: (Cons b cs)
    show ?thesis
    proof (cases "a = 0x30 \<and> (b = 0x78 \<or> b = 0x58)")
      case True
      with u v show ?thesis by (cases cs) (simp_all add: radixDigits_16_Nil del: radixDigits.simps(2))
    next
      case False
      then have "stripPrefix (a # b # cs) = (10, a # b # cs)" by auto
      with u v False show ?thesis by (auto simp: radixDigits_10_Nil simp del: radixDigits.simps stripPrefix.simps)
    qed
  qed
qed

lemma stripSign_snd:
  "snd (stripSign t) = (case t of [] \<Rightarrow> t | c # cs \<Rightarrow> if c = 0x2D \<or> c = 0x2B then cs else t)"
  by (cases t) auto

lemma parseInt_NaN_iff: "isNaN (parseInt s) \<longleftrightarrow> \<not> hasNumeral s"
proof -
  define u where "u = snd (stripSign (dropWhile isWhiteSpace s))"
  have "isNaN (parseInt s) \<longleftrightarrow> radixDigits (fst (stripPrefix u)) (snd (stripPrefix u)) = []"
    unfolding parseInt_def Let_def case_prod_beta u_def
    by (simp add: roundToDouble_not_NaN)
  also have "hasNumeral s \<longleftrightarrow> radixDigits (fst (stripPrefix u)) (snd (stripPrefix u)) \<noteq> []"
    unfolding hasNumeral_def Let_def stripPrefix_numeral u_def stripSign_snd by (rule refl)
  then have "radixDigits (fst (stripPrefix u)) (snd (stripPrefix u)) = [] \<longleftrightarrow> \<not> hasNumeral s"
    by blast
  finally show ?thesis .
qed

lemma decimalDigit_facts:
  assumes "isDecimalDigit c"
  shows "digitValue c = Some (unat c - 0x30)" "unat c - 0x30 < 10" "0x30 \<le> unat c"
    "\<not> isWhiteSpace c" "c \<noteq> 0x2D" "c \<noteq> 0x2B" "c \<noteq> 0x78" "c \<noteq> 0x58"
  using assms
  by (auto simp: isDecimalDigit_def digitValue_def isWhiteSpace_def word_le_nat_alt)

lemma radixDigits_decimal:
  "list_all isDecimalDigit t \<Longrightarrow> radixDigits 10 t = map (\<lambda>c. unat c - 0x30) t"
  by (induction t) (simp_all add: decimalDigit_facts)

lemma mathInt_decimal:
  "list_all isDecimalDigit t \<Longrightarrow>
   foldl (\<lambda>a d. a * int 10 + int d) x (map (\<lambda>c. unat c - 0x30) t)
   = foldl (\<lambda>a c. a * 10 + (int (unat c) - 0x30)) x t"
proof (induction t arbitrary: x)
  case Nil
  then show ?case by simp
next
  case (Cons c t)
  then have "0x30 \<le> unat c" by (simp add: decimalDigit_facts)
  then have "int (unat c - 0x30) = int (unat c) - 0x30" by simp
  with Cons show ?case by simp
qed

lemma stripPrefix_decimal:
  "list_all isDecimalDigit t \<Longrightarrow> stripPrefix t = (10, t)"
proof (cases t)
  case Nil
  then show ?thesis by simp
next
  case (Cons a u)
  assume d: "list_all isDecimalDigit t"
  show ?thesis
  proof (cases u)
    case Nil
    with Cons show ?thesis by simp
  next
    case u: (Cons b cs)
    with Cons d have "isDecimalDigit b" by simp
    with Cons u show ?thesis by (simp add: decimalDigit_facts)
  qed
qed

lemma parseInt_digits:
  assumes "t \<noteq> []" "list_all isDecimalDigit t"
  shows "parseInt t = roundToDouble (digitsValue t)"
    and "parseInt (0x2D # t) = roundToDouble (- digitsValue t)"
    and "parseInt (0x2B # t) = roundToDouble (digitsValue t)"
proof -
  from assms obtain c u where t: "t = c # u" "isDecimalDigit c" by (cases t) auto
  have r: "radixDigits 10 t = map (\<lambda>c. unat c - 0x30) t"
    by (rule radixDigits_decimal [OF assms(2)])
  have v: "mathInt 10 (map (\<lambda>c. unat c - 0x30) t) = digitsValue t"
    unfolding mathInt_def digitsValue_def by (rule mathInt_decimal [OF assms(2)])
  have ne: "map (\<lambda>c. unat c - 0x30) t \<noteq> []" using assms(1) by simp
  have px: "stripPrefix t = (10, t)" by (rule stripPrefix_decimal [OF assms(2)])
  have w: "dropWhile isWhiteSpace t = t" using t by (simp add: decimalDigit_facts)
  have sg: "stripSign t = (1, t)" using t by (simp add: decimalDigit_facts)
  show "parseInt t = roundToDouble (digitsValue t)"
    unfolding parseInt_def Let_def w sg prod.case px r v using ne by simp
  have w': "dropWhile isWhiteSpace (0x2D # t) = 0x2D # t" by (simp add: isWhiteSpace_def)
  have sg': "stripSign (0x2D # t) = (- 1, t)" by simp
  show "parseInt (0x2D # t) = roundToDouble (- digitsValue t)"
    unfolding parseInt_def Let_def w' sg' prod.case px r v using ne by simp
  have w'': "dropWhile isWhiteSpace (0x2B # t) = 0x2B # t" by (simp add: isWhiteSpace_def)
  have sg'': "stripSign (0x2B # t) = (1, t)" by simp
  show "parseInt (0x2B # t) = roundToDouble (digitsValue t)"
    unfolding parseInt_def Let_def w'' sg'' prod.case px r v using ne by simp
qed

lemma parseInt_wellFormed:
  assumes "wellFormedInteger s" "\<bar>integerValue s\<bar> \<le> 2 ^ 53"
  shows "parseInt s = Finite (integerValue s)"
proof (cases s)
  case Nil
  with assms(1) show ?thesis by (simp add: wellFormedInteger_def)
next
  case (Cons c cs)
  show ?thesis
  proof (cases "c = 0x2D")
    case True
    with Cons assms(1) have "cs \<noteq> []" "list_all isDecimalDigit cs"
      by (simp_all add: wellFormedInteger_def)
    from parseInt_digits(2) [OF this] Cons True assms(2) show ?thesis
      by (simp add: integerValue_def roundToDouble_exact)
  next
    case minus: False
    show ?thesis
    proof (cases "c = 0x2B")
      case True
      with Cons assms(1) have "cs \<noteq> []" "list_all isDecimalDigit cs"
        by (simp_all add: wellFormedInteger_def)
      from parseInt_digits(3) [OF this] Cons True assms(2) show ?thesis
        by (simp add: integerValue_def roundToDouble_exact)
    next
      case False
      with minus Cons assms(1) have "s \<noteq> []" "list_all isDecimalDigit s"
        by (simp_all add: wellFormedInteger_def)
      from parseInt_digits(1) [OF this] Cons False minus assms(2) show ?thesis
        by (simp add: integerValue_def roundToDouble_exact)
    qed
  qed
qed

lemma toString_decimalString:
  assumes "- (2 ^ 53) \<le> v" "v \<le> 2 ^ 53"
  shows "toString (Finite v) = decimalString v"
proof -
  have lo: "toString (Finite (- 9007199254740992)) = decimalString (- 9007199254740992)"
    by code_simp
  have hi: "toString (Finite 9007199254740992) = decimalString 9007199254740992"
    by code_simp
  from assms have "v = - 9007199254740992 \<or> v = 9007199254740992 \<or> \<bar>v\<bar> < 2 ^ 53" by auto
  then show ?thesis
    using lo hi toString_exact [of v] by (auto simp: decimalString_def)
qed

section \<open>Properties of the listener\<close>

text \<open>
  Several properties below hold for a range that lies between \<open>- 2 ^ 53\<close> and
  \<open>2 ^ 53 - 1\<close> and fail beyond it, always for the same reason: at \<open>2 ^ 53\<close> the
  statement \<^verbatim>\<open>i++\<close> no longer changes \<^verbatim>\<open>i\<close>, and the loop spins.
\<close>

text \<open>
  C1 (as amended). Let the start field parse to an integer \<open>a \<ge> - 2 ^ 53\<close> and the end
  field to an integer \<open>b\<close>. If some integer \<open>i\<close> with \<open>a \<le> i \<le> b\<close> and
  \<open>i \<le> 2 ^ 53\<close> prints (\<^verbatim>\<open>i.toString()\<close>) exactly as the password, the listener
  writes the found message in green. The end of the range is not bounded.
\<close>

theorem found_in_range:
  assumes "parseInt startField = Finite a" "parseInt endField = Finite b"
    "- (2 ^ 53) \<le> a" "a \<le> i" "i \<le> b" "i \<le> 2 ^ 53"
    "toString (Finite i) = password"
  shows "handler password startField endField = Some foundResult"
proof -
  from scan_reaches [OF assms(6,5,7) assms(3,4), of 0] obtain k where
    "scan password (Finite b) (Finite a) 0 = Some (True, k)" by blast
  with assms(1,2) show ?thesis by (simp add: handler_def run_def)
qed

theorem found_in_range_witness:
  "parseInt (lit ''1'') = Finite 1
   \<and> parseInt (lit ''10000000000000000'') = Finite 10000000000000000
   \<and> - (2 ^ 53) \<le> (1 :: int) \<and> (1 :: int) \<le> 5 \<and> (5 :: int) \<le> 10000000000000000
   \<and> (5 :: int) \<le> 2 ^ 53 \<and> toString (Finite 5) = lit ''5''
   \<and> handler (lit ''5'') (lit ''1'') (lit ''10000000000000000'') = Some foundResult"
proof -
  have s: "parseInt (lit ''1'') = Finite 1" by code_simp
  have e: "parseInt (lit ''10000000000000000'') = Finite 10000000000000000" by code_simp
  have l: "- (2 ^ 53) \<le> (1 :: int)" by simp
  have i1: "(1 :: int) \<le> 5" by simp
  have i2: "(5 :: int) \<le> 10000000000000000" by simp
  have i3: "(5 :: int) \<le> 2 ^ 53" by simp
  have t: "toString (Finite 5) = lit ''5''" by code_simp
  show ?thesis using s e l i1 i2 i3 t found_in_range [OF s e l i1 i2 i3 t] by simp
qed

text \<open>
  Both bounds are needed. With start \<open>2 ^ 53\<close>, end \<open>2 ^ 53 + 2\<close> and the password
  \<^verbatim>\<open>"9007199254740994"\<close>, the end of the range prints as the password, yet the loop never
  gets past \<open>2 ^ 53\<close> and nothing is written. And with start \<open>- 2 ^ 53 - 4\<close>, end 0 and
  the password \<^verbatim>\<open>"0"\<close> the loop never leaves its start.
\<close>

theorem found_in_range_counterexample:
  "parseInt (lit ''9007199254740992'') = Finite 9007199254740992
   \<and> parseInt (lit ''9007199254740994'') = Finite 9007199254740994
   \<and> toString (Finite 9007199254740994) = lit ''9007199254740994''
   \<and> handler (lit ''9007199254740994'') (lit ''9007199254740992'') (lit ''9007199254740994'')
       = None
   \<and> parseInt (lit ''-9007199254740996'') = Finite (- 9007199254740996)
   \<and> parseInt (lit ''0'') = Finite 0
   \<and> toString (Finite 0) = lit ''0''
   \<and> handler (lit ''0'') (lit ''-9007199254740996'') (lit ''0'') = None"
proof -
  have e: "parseInt (lit ''9007199254740994'') = Finite 9007199254740994" by code_simp
  have t: "toString (Finite 9007199254740994) = lit ''9007199254740994''" by code_simp
  have "scan (lit ''9007199254740994'') (Finite 9007199254740994) (Finite 9007199254740992) 0
      = None"
    by (rule scan_stuck) (simp, rule increment_2_53, simp add: toString_2_53 lit_def)
  then have h: "handler (lit ''9007199254740994'') (lit ''9007199254740992'')
      (lit ''9007199254740994'') = None"
    by (simp add: handler_def run_def parseInt_2_53 e)
  have s': "parseInt (lit ''-9007199254740996'') = Finite (- 9007199254740996)" by code_simp
  have e': "parseInt (lit ''0'') = Finite 0" by code_simp
  have t': "toString (Finite 0) = lit ''0''" by code_simp
  have inc: "increment (Finite (- 9007199254740996)) = Finite (- 9007199254740996)"
    by code_simp
  have ne: "toString (Finite (- 9007199254740996)) \<noteq> lit ''0''" by code_simp
  have "scan (lit ''0'') (Finite 0) (Finite (- 9007199254740996)) 0 = None"
    by (rule scan_stuck) (simp, rule inc, rule ne)
  then have h': "handler (lit ''0'') (lit ''-9007199254740996'') (lit ''0'') = None"
    by (simp add: handler_def run_def s' e')
  from e t h s' e' t' h' show ?thesis by (simp add: parseInt_2_53)
qed

text \<open>
  C2 (as amended). Let the start field parse to an integer \<open>a \<ge> - 2 ^ 53\<close> and the end
  field to an integer \<open>b < 2 ^ 53\<close>. If no integer \<open>i\<close> with \<open>a \<le> i \<le> b\<close> prints as
  the password, the listener writes the not-found message in red.
\<close>

theorem not_found_outside_range:
  assumes "parseInt startField = Finite a" "parseInt endField = Finite b"
    "- (2 ^ 53) \<le> a" "b < 2 ^ 53"
    "\<forall>i. a \<le> i \<and> i \<le> b \<longrightarrow> toString (Finite i) \<noteq> password"
  shows "handler password startField endField = Some notFoundResult"
proof -
  from assms(5) have "\<not> (\<exists>i. a \<le> i \<and> i \<le> b \<and> toString (Finite i) = password)" by blast
  with run_found [OF assms(1-4), of password] show ?thesis
    by (auto simp: handler_def)
qed

theorem not_found_outside_range_witness:
  "parseInt (lit ''1'') = Finite 1 \<and> parseInt (lit ''3'') = Finite 3
   \<and> - (2 ^ 53) \<le> (1 :: int) \<and> (3 :: int) < 2 ^ 53
   \<and> toString (Finite 1) \<noteq> lit ''7'' \<and> toString (Finite 2) \<noteq> lit ''7''
   \<and> toString (Finite 3) \<noteq> lit ''7''
   \<and> handler (lit ''7'') (lit ''1'') (lit ''3'') = Some notFoundResult"
proof -
  have s: "parseInt (lit ''1'') = Finite 1" by code_simp
  have e: "parseInt (lit ''3'') = Finite 3" by code_simp
  have l: "- (2 ^ 53) \<le> (1 :: int)" by simp
  have u: "(3 :: int) < 2 ^ 53" by simp
  have t1: "toString (Finite 1) \<noteq> lit ''7''" by code_simp
  have t2: "toString (Finite 2) \<noteq> lit ''7''" by code_simp
  have t3: "toString (Finite 3) \<noteq> lit ''7''" by code_simp
  have t: "\<forall>i. 1 \<le> i \<and> i \<le> 3 \<longrightarrow> toString (Finite i) \<noteq> lit ''7''"
  proof (intro allI impI)
    fix i :: int
    assume "1 \<le> i \<and> i \<le> 3"
    then have "i = 1 \<or> i = 2 \<or> i = 3" by arith
    with t1 t2 t3 show "toString (Finite i) \<noteq> lit ''7''" by blast
  qed
  show ?thesis using s e l u t1 t2 t3 not_found_outside_range [OF s e l u t] by simp
qed

text \<open>
  Without the bound: start and end both \<open>2 ^ 53\<close>, password \<^verbatim>\<open>"abc"\<close>. The only
  integer of the range does not print as the password, and the listener writes nothing, for
  it never returns.
\<close>

theorem not_found_outside_range_counterexample:
  "parseInt (lit ''9007199254740992'') = Finite 9007199254740992
   \<and> toString (Finite 9007199254740992) \<noteq> lit ''abc''
   \<and> handler (lit ''abc'') (lit ''9007199254740992'') (lit ''9007199254740992'') = None"
proof -
  have t: "toString (Finite 9007199254740992) \<noteq> lit ''abc''"
    by (simp add: toString_2_53 lit_def)
  have "scan (lit ''abc'') (Finite 9007199254740992) (Finite 9007199254740992) 0 = None"
    by (rule scan_stuck) (simp, rule increment_2_53, rule t)
  then have "handler (lit ''abc'') (lit ''9007199254740992'') (lit ''9007199254740992'') = None"
    by (simp add: handler_def run_def parseInt_2_53)
  with t show ?thesis by (simp add: parseInt_2_53)
qed

text \<open>
  C3. When \<^verbatim>\<open>parseInt\<close> yields \<^verbatim>\<open>NaN\<close> for the start field or for the end field,
  the listener writes "Invalid range" in red whatever the password is, and the loop body has
  not run at all.
\<close>

theorem invalid_range_without_scan:
  "isNaN (parseInt startField) \<or> isNaN (parseInt endField) \<Longrightarrow>
   run password startField endField = Some (invalidResult, 0)"
  by (auto simp: run_def)

theorem invalid_range_without_scan_witness:
  "(isNaN (parseInt (lit ''a'')) \<or> isNaN (parseInt (lit ''10'')))
   \<and> run (lit ''5'') (lit ''a'') (lit ''10'') = Some (invalidResult, 0)"
proof -
  have h: "isNaN (parseInt (lit ''a'')) \<or> isNaN (parseInt (lit ''10''))" by code_simp
  show ?thesis using h invalid_range_without_scan [OF h, of "lit ''5''"] by simp
qed

text \<open>
  C4 (as amended). The listener stops with "Invalid range" exactly when the start field or the
  end field has no numeral, that is unless, after leading white space and an optional sign,
  the field begins with \<^verbatim>\<open>0x\<close>/\<^verbatim>\<open>0X\<close> and a hexadecimal digit right after it, or
  does not begin with \<^verbatim>\<open>0x\<close>/\<^verbatim>\<open>0X\<close> and begins with a decimal digit. And every
  well-formed base-10 integer string (an optional sign, then decimal digits only) whose value
  has magnitude at most \<open>2 ^ 53\<close> is accepted and parsed at its base-10 value.
\<close>

theorem invalid_range_iff_no_numeral:
  "(handler password startField endField = Some invalidResult
      \<longleftrightarrow> \<not> hasNumeral startField \<or> \<not> hasNumeral endField)
   \<and> (wellFormedInteger s \<and> \<bar>integerValue s\<bar> \<le> 2 ^ 53
        \<longrightarrow> parseInt s = Finite (integerValue s))"
proof -
  have "handler password startField endField = Some invalidResult
      \<longleftrightarrow> isNaN (parseInt startField) \<or> isNaN (parseInt endField)"
    unfolding handler_def run_def Let_def
    by (auto simp: lit_def split: option.splits)
  then show ?thesis by (simp add: parseInt_NaN_iff parseInt_wellFormed)
qed

theorem invalid_range_iff_no_numeral_witness:
  "hasNumeral (lit ''12abc'') \<and> hasNumeral (lit ''0x10'') \<and> \<not> hasNumeral (lit ''0xg'')
   \<and> handler (lit ''14'') (lit ''12abc'') (lit ''0x10'') \<noteq> Some invalidResult
   \<and> handler (lit ''14'') (lit ''0xg'') (lit ''0x10'') = Some invalidResult
   \<and> wellFormedInteger (lit ''-007'') \<and> integerValue (lit ''-007'') = - 7
   \<and> parseInt (lit ''-007'') = Finite (- 7)"
proof -
  have a: "hasNumeral (lit ''12abc'')" by code_simp
  have b: "hasNumeral (lit ''0x10'')" by code_simp
  have c: "\<not> hasNumeral (lit ''0xg'')" by code_simp
  have d: "wellFormedInteger (lit ''-007'')" by code_simp
  have v: "integerValue (lit ''-007'') = - 7" by code_simp
  show ?thesis
    using a b c d v
      invalid_range_iff_no_numeral [of "lit ''14''" "lit ''12abc''" "lit ''0x10''" "lit ''-007''"]
      invalid_range_iff_no_numeral [of "lit ''14''" "lit ''0xg''" "lit ''0x10''" "lit ''-007''"]
    by simp
qed

text \<open>
  As first stated the property fails twice. \<^verbatim>\<open>"12abc"\<close> and \<^verbatim>\<open>"0x10"\<close> are no
  well-formed base-10 integers, yet they are read as 12 and 16 and the range is scanned. And
  \<^verbatim>\<open>"9007199254740993"\<close> is a well-formed base-10 integer that is not parsed at its
  value but at the nearest double.
\<close>

theorem invalid_range_iff_no_numeral_counterexample:
  "handler (lit ''14'') (lit ''12abc'') (lit ''0x10'') = Some foundResult
   \<and> parseInt (lit ''12abc'') = Finite 12 \<and> parseInt (lit ''0x10'') = Finite 16
   \<and> wellFormedInteger (lit ''9007199254740993'')
   \<and> integerValue (lit ''9007199254740993'') = 9007199254740993
   \<and> parseInt (lit ''9007199254740993'') = Finite 9007199254740992"
  by code_simp

text \<open>
  C5 (as amended). Let the start field parse to an integer \<open>a \<ge> - 2 ^ 53\<close> and the end
  field to an integer \<open>b < 2 ^ 53\<close>. For a password that begins with the digit \<^verbatim>\<open>0\<close>
  and is longer than one character, the listener writes the not-found message in red; and
  integer-to-string conversion never yields such a password, for any integer.
\<close>

theorem no_match_with_leading_zero:
  assumes "parseInt startField = Finite a" "parseInt endField = Finite b"
    "- (2 ^ 53) \<le> a" "b < 2 ^ 53" "password = 0x30 # c # cs"
  shows "handler password startField endField = Some notFoundResult
    \<and> (\<forall>v. toString (Finite v) \<noteq> password)"
proof -
  from assms(5) have n: "\<forall>v. toString (Finite v) \<noteq> password"
    by (simp add: toString_no_leading_zero)
  then have "\<not> (\<exists>i. a \<le> i \<and> i \<le> b \<and> toString (Finite i) = password)" by blast
  with run_found [OF assms(1-4), of password] have
    "handler password startField endField = Some notFoundResult"
    by (auto simp: handler_def)
  with n show ?thesis by blast
qed

theorem no_match_with_leading_zero_witness:
  "parseInt (lit ''1'') = Finite 1 \<and> parseInt (lit ''10'') = Finite 10
   \<and> - (2 ^ 53) \<le> (1 :: int) \<and> (10 :: int) < 2 ^ 53 \<and> lit ''05'' = 0x30 # 0x35 # []
   \<and> handler (lit ''05'') (lit ''1'') (lit ''10'') = Some notFoundResult
   \<and> (\<forall>v. toString (Finite v) \<noteq> lit ''05'')"
proof -
  have s: "parseInt (lit ''1'') = Finite 1" by code_simp
  have e: "parseInt (lit ''10'') = Finite 10" by code_simp
  have l: "- (2 ^ 53) \<le> (1 :: int)" by simp
  have u: "(10 :: int) < 2 ^ 53" by simp
  have p: "lit ''05'' = 0x30 # 0x35 # []" by (simp add: lit_def)
  show ?thesis using s e l u p no_match_with_leading_zero [OF s e l u p] by simp
qed

text \<open>
  Without the bound the message is not written: start and end \<open>2 ^ 53\<close>, password
  \<^verbatim>\<open>"007"\<close>.
\<close>

theorem no_match_with_leading_zero_counterexample:
  "parseInt (lit ''9007199254740992'') = Finite 9007199254740992
   \<and> handler (lit ''007'') (lit ''9007199254740992'') (lit ''9007199254740992'') = None"
proof -
  have "scan (lit ''007'') (Finite 9007199254740992) (Finite 9007199254740992) 0 = None"
    by (rule scan_stuck) (simp, rule increment_2_53, simp add: toString_2_53 lit_def)
  then show ?thesis by (simp add: handler_def run_def parseInt_2_53)
qed

text \<open>
  C6 (as amended). From a start \<open>a \<ge> - 2 ^ 53\<close> to an end \<open>b < 2 ^ 53\<close> the loop with
  its early exit ends, and its flag \<^verbatim>\<open>found\<close> is the answer of the membership check of
  the specification: some integer \<open>i\<close> with \<open>a \<le> i \<le> b\<close> has the password as its
  decimal string.
\<close>

theorem scan_refines_membership:
  assumes "- (2 ^ 53) \<le> a" "b < 2 ^ 53"
  shows "map_option fst (scan password (Finite b) (Finite a) n)
    = Some (inRange_spec password a b)"
proof -
  have "(\<exists>i. a \<le> i \<and> i \<le> b \<and> toString (Finite i) = password) = inRange_spec password a b"
    using assms by (auto simp: inRange_spec_def toString_decimalString)
  with scan_finite [OF assms(2) assms(1), of password n] show ?thesis by auto
qed

theorem scan_refines_membership_witness:
  "- (2 ^ 53) \<le> (1 :: int) \<and> (10 :: int) < 2 ^ 53
   \<and> map_option fst (scan (lit ''5'') (Finite 10) (Finite 1) 0) = Some (inRange_spec (lit ''5'') 1 10)
   \<and> inRange_spec (lit ''5'') 1 10"
proof -
  have l: "- (2 ^ 53) \<le> (1 :: int)" by simp
  have u: "(10 :: int) < 2 ^ 53" by simp
  have m: "inRange_spec (lit ''5'') 1 10" by code_simp
  show ?thesis using l u m scan_refines_membership [OF l u, of "lit ''5''" 0] by simp
qed

text \<open>
  Beyond the bound the two differ: from \<open>2 ^ 53\<close> to \<open>2 ^ 53 + 2\<close> the membership
  check holds for the password \<^verbatim>\<open>"9007199254740994"\<close>, and the loop has no outcome.
\<close>

theorem scan_refines_membership_counterexample:
  "scan (lit ''9007199254740994'') (Finite 9007199254740994) (Finite 9007199254740992) 0 = None
   \<and> inRange_spec (lit ''9007199254740994'') 9007199254740992 9007199254740994"
proof -
  have "scan (lit ''9007199254740994'') (Finite 9007199254740994) (Finite 9007199254740992) 0
      = None"
    by (rule scan_stuck) (simp, rule increment_2_53, simp add: toString_2_53 lit_def)
  moreover have "inRange_spec (lit ''9007199254740994'') 9007199254740992 9007199254740994"
    by code_simp
  ultimately show ?thesis by blast
qed

text \<open>
  C7 (as amended). When the start field parses to an integer \<open>a \<ge> - 2 ^ 53\<close> and the end
  field to an integer \<open>b < 2 ^ 53\<close>, the listener returns, and the loop body has run at
  most \<open>b - a + 1\<close> times (not at all when \<open>b < a\<close>).
\<close>

theorem scan_terminates:
  assumes "parseInt startField = Finite a" "parseInt endField = Finite b"
    "- (2 ^ 53) \<le> a" "b < 2 ^ 53"
  shows "\<exists>r k. run password startField endField = Some (r, k) \<and> int k \<le> max 0 (b - a + 1)"
  using run_found [OF assms, of password] by blast

theorem scan_terminates_witness:
  "parseInt (lit ''1'') = Finite 1 \<and> parseInt (lit ''10'') = Finite 10
   \<and> - (2 ^ 53) \<le> (1 :: int) \<and> (10 :: int) < 2 ^ 53
   \<and> (\<exists>r k. run (lit ''05'') (lit ''1'') (lit ''10'') = Some (r, k) \<and> int k \<le> max 0 (10 - 1 + 1))"
proof -
  have s: "parseInt (lit ''1'') = Finite 1" by code_simp
  have e: "parseInt (lit ''10'') = Finite 10" by code_simp
  have l: "- (2 ^ 53) \<le> (1 :: int)" by simp
  have u: "(10 :: int) < 2 ^ 53" by simp
  show ?thesis using s e l u scan_terminates [OF s e l u, of "lit ''05''"] by simp
qed

text \<open>
  For a range of any size it does not: with start and end \<open>2 ^ 53\<close> and the password
  \<^verbatim>\<open>"1"\<close> the listener never returns.
\<close>

theorem scan_terminates_counterexample:
  "parseInt (lit ''9007199254740992'') = Finite 9007199254740992
   \<and> run (lit ''1'') (lit ''9007199254740992'') (lit ''9007199254740992'') = None"
proof -
  have "scan (lit ''1'') (Finite 9007199254740992) (Finite 9007199254740992) 0 = None"
    by (rule scan_stuck) (simp, rule increment_2_53, simp add: toString_2_53 lit_def)
  then show ?thesis by (simp add: run_def parseInt_2_53)
qed

text \<open>
  C8. When both fields parse as integers and start is greater than end, the loop body never
  runs and the listener writes the not-found message in red, whatever the password is.
\<close>

theorem empty_range_not_found:
  "parseInt startField = Finite a \<Longrightarrow> parseInt endField = Finite b \<Longrightarrow> b < a \<Longrightarrow>
   run password startField endField = Some (notFoundResult, 0)"
  by (simp add: run_def scan.simps)

theorem empty_range_not_found_witness:
  "parseInt (lit ''10'') = Finite 10 \<and> parseInt (lit ''1'') = Finite 1 \<and> (1 :: int) < 10
   \<and> run (lit ''5'') (lit ''10'') (lit ''1'') = Some (notFoundResult, 0)"
proof -
  have s: "parseInt (lit ''10'') = Finite 10" by code_simp
  have e: "parseInt (lit ''1'') = Finite 1" by code_simp
  have l: "(1 :: int) < 10" by simp
  show ?thesis using s e l empty_range_not_found [OF s e l, of "lit ''5''"] by simp
qed

text \<open>
  C9 (as amended). Whatever the listener writes is one of three pairs of message and colour;
  the colour is green exactly when the message is the found message, and "Invalid range" and
  the not-found message come with red. It does write when a field fails to parse, and when
  the fields parse to integers \<open>a \<ge> - 2 ^ 53\<close> and \<open>b < 2 ^ 53\<close>.
\<close>

theorem written_pairs:
  "(handler password startField endField = Some r \<longrightarrow>
      (r = invalidResult \<or> r = foundResult \<or> r = notFoundResult)
      \<and> (color r = lit ''green'' \<longleftrightarrow> textContent r = lit ''Password is within range ?'')
      \<and> (textContent r = lit ''Invalid range'' \<longrightarrow> color r = lit ''red'')
      \<and> (textContent r = lit ''Password NOT in range ?'' \<longrightarrow> color r = lit ''red''))
   \<and> (isNaN (parseInt startField) \<or> isNaN (parseInt endField)
        \<or> (parseInt startField = Finite a \<and> parseInt endField = Finite b
            \<and> - (2 ^ 53) \<le> a \<and> b < 2 ^ 53)
      \<longrightarrow> (\<exists>r. handler password startField endField = Some r))"
proof -
  have inv: "handler password startField endField = Some r \<longrightarrow>
      (r = invalidResult \<or> r = foundResult \<or> r = notFoundResult)
      \<and> (color r = lit ''green'' \<longleftrightarrow> textContent r = lit ''Password is within range ?'')
      \<and> (textContent r = lit ''Invalid range'' \<longrightarrow> color r = lit ''red'')
      \<and> (textContent r = lit ''Password NOT in range ?'' \<longrightarrow> color r = lit ''red'')"
    unfolding handler_def run_def
    by (auto simp: lit_def Let_def split: option.splits if_splits prod.splits)
  have nan: "isNaN (parseInt startField) \<or> isNaN (parseInt endField)
      \<Longrightarrow> \<exists>r. handler password startField endField = Some r"
    by (auto simp: handler_def run_def)
  have fin: "parseInt startField = Finite a \<and> parseInt endField = Finite b
      \<and> - (2 ^ 53) \<le> a \<and> b < 2 ^ 53
      \<Longrightarrow> \<exists>r. handler password startField endField = Some r"
    using run_found [of startField a endField b password] by (auto simp: handler_def)
  from inv nan fin show ?thesis by blast
qed

theorem written_pairs_witness:
  "handler (lit ''5'') (lit ''1'') (lit ''10'') = Some foundResult
   \<and> color foundResult = lit ''green''
   \<and> textContent foundResult = lit ''Password is within range ?''
   \<and> parseInt (lit ''1'') = Finite 1 \<and> parseInt (lit ''10'') = Finite 10
   \<and> - (2 ^ 53) \<le> (1 :: int) \<and> (10 :: int) < 2 ^ 53
   \<and> (\<exists>r. handler (lit ''5'') (lit ''1'') (lit ''10'') = Some r)"
proof -
  have h: "handler (lit ''5'') (lit ''1'') (lit ''10'') = Some foundResult" by code_simp
  have s: "parseInt (lit ''1'') = Finite 1" by code_simp
  have e: "parseInt (lit ''10'') = Finite 10" by code_simp
  show ?thesis
    using h s e written_pairs [of "lit ''5''" "lit ''1''" "lit ''10''" foundResult 1 10]
    by simp
qed

text \<open>
  Not every click writes one of the pairs: with start and end \<open>2 ^ 53\<close> and the password
  \<^verbatim>\<open>"12"\<close> nothing is written.
\<close>

theorem written_pairs_counterexample:
  "parseInt (lit ''9007199254740992'') = Finite 9007199254740992
   \<and> handler (lit ''12'') (lit ''9007199254740992'') (lit ''9007199254740992'') = None"
proof -
  have "scan (lit ''12'') (Finite 9007199254740992) (Finite 9007199254740992) 0 = None"
    by (rule scan_stuck) (simp, rule increment_2_53, simp add: toString_2_53 lit_def)
  then show ?thesis by (simp add: handler_def run_def parseInt_2_53)
qed

end
